theory Spec2Isabelle
  imports Main "HOL-Library.Word"
begin

unbundle bit_operations_syntax

section \<open>JavaScript values used by \<open>src/lib/index.ts\<close>\<close>

text \<open>
  A \<open>Buffer\<close> is a list of bytes.  An exception is a value of \<open>js_error\<close>: \<open>Error msg\<close>
  is \<open>new Error(msg)\<close> as thrown by the libraries \<open>elliptic\<close> and \<open>bn.js\<close>,
  \<open>TypeError\<close> is the engine's error for reading a property of \<open>null\<close>, \<open>RangeError\<close>
  the engine's error for \<open>new Array(k)\<close> with a negative \<open>k\<close>.  A function that can throw
  returns \<open>js_error + 'a\<close>.
\<close>

type_synonym byte = "8 word"
type_synonym buffer = "byte list"

datatype js_error = Error string | TypeError | RangeError

definition bind_js :: "js_error + 'a \<Rightarrow> ('a \<Rightarrow> js_error + 'b) \<Rightarrow> js_error + 'b" where
  "bind_js m f = (case m of Inl e \<Rightarrow> Inl e | Inr v \<Rightarrow> f v)"

subsection \<open>Hexadecimal text\<close>

definition hex_digit :: "int \<Rightarrow> char" where
  "hex_digit d = (if d < 10 then char_of (48 + d) else char_of (87 + d))"

definition hex_value :: "char \<Rightarrow> int option" where
  "hex_value c =
     (let k = (of_char c :: int) in
      if 48 \<le> k \<and> k \<le> 57 then Some (k - 48)
      else if 97 \<le> k \<and> k \<le> 102 then Some (k - 87)
      else if 65 \<le> k \<and> k \<le> 70 then Some (k - 55)
      else None)"

text \<open>\<open>toString(16)\<close> of a \<open>Number\<close> with an integer value and of a \<open>BN\<close>: lower-case
  digits without leading zeros, \<open>"0"\<close> for zero, a minus sign before the digits of a
  negative number.\<close>

function hex_digits :: "int \<Rightarrow> string" where
  "hex_digits v = (if v < 16 then [hex_digit v] else hex_digits (v div 16) @ [hex_digit (v mod 16)])"
  by pat_completeness auto
termination
  by (relation "measure nat") auto

declare hex_digits.simps [simp del]

definition toString16 :: "int \<Rightarrow> string" where
  "toString16 v = (if v < 0 then CHR ''-'' # hex_digits (- v) else hex_digits v)"

text \<open>\<open>Buffer.from(s, 'hex')\<close>: two digits give one byte; decoding stops at the first pair
  that is not two hexadecimal digits, and a trailing single character is dropped.\<close>

fun buffer_from_hex :: "string \<Rightarrow> buffer" where
  "buffer_from_hex (a # b # cs) =
     (case hex_value a of
        None \<Rightarrow> []
      | Some h \<Rightarrow> (case hex_value b of
                     None \<Rightarrow> []
                   | Some l \<Rightarrow> of_int (16 * h + l) # buffer_from_hex cs))"
| "buffer_from_hex [a] = []"
| "buffer_from_hex [] = []"

text \<open>\<open>buf.toString('hex')\<close> and the \<open>'hex'\<close> encodings of \<open>elliptic\<close> and \<open>crypto\<close>: two
  lower-case digits per byte.\<close>

definition buffer_to_hex :: "buffer \<Rightarrow> string" where
  "buffer_to_hex bs = concat (map (\<lambda>b. [hex_digit (uint b div 16), hex_digit (uint b mod 16)]) bs)"

text \<open>\<open>new Array(k).join('0')\<close>: \<open>k - 1\<close> zeros for \<open>k \<ge> 1\<close>, the empty string for \<open>k = 0\<close>,
  a \<open>RangeError\<close> for a negative \<open>k\<close>.\<close>

definition array_join_zeros :: "int \<Rightarrow> js_error + string" where
  "array_join_zeros k = (if k < 0 then Inl RangeError else Inr (replicate (nat k - 1) (CHR ''0'')))"

subsection \<open>Big numbers (\<open>bn.js\<close>)\<close>

text \<open>A \<open>BN\<close> is an unbounded integer.  \<open>new BN(s, 16)\<close> reads hexadecimal digits, with an
  optional leading minus sign; \<open>toString(16)\<close> writes them.  \<open>mod\<close> is the remainder of the
  truncating division (it has the sign of the dividend) and asserts a non-zero divisor.\<close>

definition hex_to_int :: "string \<Rightarrow> int" where
  "hex_to_int s = foldl (\<lambda>acc c. 16 * acc + (case hex_value c of Some d \<Rightarrow> d | None \<Rightarrow> 0)) 0 s"

definition bn_of_hex :: "string \<Rightarrow> int" where
  "bn_of_hex s = (case s of
       c # r \<Rightarrow> if c = CHR ''-'' then - hex_to_int r else hex_to_int s
     | [] \<Rightarrow> 0)"

definition bn_toString16 :: "int \<Rightarrow> string" where
  "bn_toString16 i = toString16 i"

definition bn_mod :: "int \<Rightarrow> int \<Rightarrow> js_error + int" where
  "bn_mod a b = (if b = 0 then Inl (Error ''Assertion failed'')
                 else Inr (sgn a * (\<bar>a\<bar> mod \<bar>b\<bar>)))"

section \<open>\<open>DlcOracle\<close>: helpers\<close>

definition padHexString :: "string \<Rightarrow> string" where
  "padHexString hexString =
     (if length hexString mod 2 \<noteq> 0 then CHR ''0'' # hexString else hexString)"

definition euclideanMod :: "int \<Rightarrow> int \<Rightarrow> js_error + int" where
  "euclideanMod num1 num2 =
     (let neg = (num1 < 0) in
      bind_js (bn_mod num1 num2) (\<lambda>r.
        if neg then (if num2 < 0 then Inr (r - num2) else Inr (r + num2))
        else Inr r))"

text \<open>The argument of \<open>generateNumericMessage\<close> is a \<open>Number\<close> with an integer value.\<close>

definition generateNumericMessage :: "int \<Rightarrow> js_error + buffer" where
  "generateNumericMessage v =
     (let numberString = toString16 v in
      bind_js (array_join_zeros (64 - int (length numberString) + 1)) (\<lambda>zeros.
        Inr (buffer_from_hex (zeros @ numberString))))"

text \<open>The big-endian encoding of a number in a fixed number of bytes, and its inverse.\<close>

fun be_bytes :: "nat \<Rightarrow> int \<Rightarrow> buffer" where
  "be_bytes 0 v = []"
| "be_bytes (Suc k) v = be_bytes k (v div 256) @ [of_int (v mod 256)]"

definition be_int :: "buffer \<Rightarrow> int" where
  "be_int bs = foldl (\<lambda>acc b. 256 * acc + uint b) 0 bs"

text \<open>The digits of a number in a fixed number of hexadecimal places.\<close>

fun hex_fixed :: "nat \<Rightarrow> int \<Rightarrow> string" where
  "hex_fixed 0 v = []"
| "hex_fixed (Suc k) v = hex_fixed k (v div 16) @ [hex_digit (v mod 16)]"

section \<open>SHA-256 (\<open>createHash('sha256')\<close> of \<open>crypto\<close>)\<close>

text \<open>A 32-bit word is an integer in \<open>[0, 2^32)\<close>; addition wraps modulo \<open>2^32\<close>, a
  rotation moves the low bits to the top.\<close>

definition add32 :: "int \<Rightarrow> int \<Rightarrow> int" where
  "add32 x y = (x + y) mod 4294967296"

definition rotr :: "nat \<Rightarrow> int \<Rightarrow> int" where
  "rotr k x = x div 2 ^ k + (x mod 2 ^ k) * 2 ^ (32 - k)"

definition Ch :: "int \<Rightarrow> int \<Rightarrow> int \<Rightarrow> int" where
  "Ch x y z = (x AND y) XOR ((4294967295 - x) AND z)"

definition Maj :: "int \<Rightarrow> int \<Rightarrow> int \<Rightarrow> int" where
  "Maj x y z = (x AND y) XOR (x AND z) XOR (y AND z)"

definition Sigma0 :: "int \<Rightarrow> int" where
  "Sigma0 x = rotr 2 x XOR rotr 13 x XOR rotr 22 x"

definition Sigma1 :: "int \<Rightarrow> int" where
  "Sigma1 x = rotr 6 x XOR rotr 11 x XOR rotr 25 x"

definition sigma0 :: "int \<Rightarrow> int" where
  "sigma0 x = rotr 7 x XOR rotr 18 x XOR x div 2 ^ 3"

definition sigma1 :: "int \<Rightarrow> int" where
  "sigma1 x = rotr 17 x XOR rotr 19 x XOR x div 2 ^ 10"

definition sha256_K :: "int list" where
  "sha256_K =
    [1116352408, 1899447441, 3049323471, 3921009573, 961987163, 1508970993, 2453635748,
     2870763221, 3624381080, 310598401, 607225278, 1426881987, 1925078388, 2162078206,
     2614888103, 3248222580] @
    [3835390401, 4022224774, 264347078, 604807628, 770255983, 1249150122, 1555081692,
     1996064986, 2554220882, 2821834349, 2952996808, 3210313671, 3336571891, 3584528711,
     113926993, 338241895] @
    [666307205, 773529912, 1294757372, 1396182291, 1695183700, 1986661051, 2177026350,
     2456956037, 2730485921, 2820302411, 3259730800, 3345764771, 3516065817, 3600352804,
     4094571909, 275423344] @
    [430227734, 506948616, 659060556, 883997877, 958139571, 1322822218, 1537002063,
     1747873779, 1955562222, 2024104815, 2227730452, 2361852424, 2428436474, 2756734187,
     3204031479, 3329325298]"

definition sha256_H0 :: "int list" where
  "sha256_H0 = [1779033703, 3144134277, 1013904242, 2773480762, 1359893119, 2600822924,
                528734635, 1541459225]"

text \<open>Padding: the byte \<open>0x80\<close>, zero bytes up to 56 modulo 64, the bit length in 8
  bytes.\<close>

definition sha256_pad :: "buffer \<Rightarrow> buffer" where
  "sha256_pad msg =
     msg @ [128] @ replicate ((119 - length msg mod 64) mod 64) 0 @ be_bytes 8 (8 * int (length msg))"

fun words_of_bytes :: "buffer \<Rightarrow> int list" where
  "words_of_bytes (a # b # c # d # rest) =
     (16777216 * uint a + 65536 * uint b + 256 * uint c + uint d) # words_of_bytes rest"
| "words_of_bytes _ = []"

fun bytes_of_words :: "int list \<Rightarrow> buffer" where
  "bytes_of_words [] = []"
| "bytes_of_words (w # ws) =
     of_int (w div 16777216) # of_int (w div 65536) # of_int (w div 256) # of_int w
       # bytes_of_words ws"

text \<open>The message schedule, from the window of the last 16 words.\<close>

fun sha256_schedule :: "nat \<Rightarrow> int list \<Rightarrow> int list" where
  "sha256_schedule 0 win = []"
| "sha256_schedule (Suc k) win =
     (let w = add32 (add32 (sigma1 (win ! 14)) (win ! 9)) (add32 (sigma0 (win ! 1)) (win ! 0))
      in w # sha256_schedule k (tl win @ [w]))"

fun sha256_round :: "int list \<Rightarrow> int \<times> int \<Rightarrow> int list" where
  "sha256_round [a, b, c, d, e, f, g, h] (k, w) =
     (let t1 = add32 (add32 (add32 h (Sigma1 e)) (add32 (Ch e f g) k)) w;
          t2 = add32 (Sigma0 a) (Maj a b c)
      in [add32 t1 t2, a, b, c, add32 d t1, e, f, g])"
| "sha256_round st _ = st"

definition sha256_block :: "int list \<Rightarrow> int list \<Rightarrow> int list" where
  "sha256_block hs blk =
     map2 add32 hs (foldl sha256_round hs (zip sha256_K (blk @ sha256_schedule 48 blk)))"

fun sha256_blocks :: "nat \<Rightarrow> int list \<Rightarrow> int list \<Rightarrow> int list" where
  "sha256_blocks 0 hs ws = hs"
| "sha256_blocks (Suc k) hs ws = sha256_blocks k (sha256_block hs (take 16 ws)) (drop 16 ws)"

definition sha256 :: "buffer \<Rightarrow> buffer" where
  "sha256 msg =
     (let ws = words_of_bytes (sha256_pad msg)
      in bytes_of_words (sha256_blocks (length ws div 16) sha256_H0 ws))"

section \<open>The curve context (\<open>new EC('secp256k1')\<close> of \<open>elliptic\<close>)\<close>

text \<open>
  The source creates one curve context \<open>ec\<close> and reads from it the field prime \<open>ec.curve.p\<close>,
  the group order \<open>ec.curve.n\<close> and the generator \<open>ec.g\<close>; the library reads the
  coefficients \<open>a\<close> and \<open>b\<close> of the short Weierstrass equation \<open>y^2 = x^3 + a x + b\<close>.  These
  constants are data of the library, so the context is a parameter of every function below;
  \<open>secp256k1\<close> is the context the source passes.

  A point is the point at infinity or an affine point whose coordinates are residues in
  \<open>[0, p)\<close> (the library's numbers in the reduction context of \<open>p\<close>).
\<close>

datatype point = Infinity | Point int int

record curve =
  curve_p :: int
  curve_a :: int
  curve_b :: int
  curve_n :: int
  curve_g :: point

definition secp256k1 :: curve where
  "secp256k1 = \<lparr>
     curve_p = 115792089237316195423570985008687907853269984665640564039457584007908834671663,
     curve_a = 0,
     curve_b = 7,
     curve_n = 115792089237316195423570985008687907852837564279074904382605163141518161494337,
     curve_g = Point
       55066263022277343669578718895168534326250603453777594175500187360389116729240
       32670510020758816978083085130507043184471273380659243275938904335757337482424 \<rparr>"

text \<open>\<open>redInvm\<close>: the inverse modulo \<open>p\<close>, by the extended Euclidean algorithm.\<close>

function inv_loop :: "int \<Rightarrow> int \<Rightarrow> int \<Rightarrow> int \<Rightarrow> int" where
  "inv_loop r0 r1 t0 t1 =
     (if r1 \<le> 0 then t0 else inv_loop r1 (r0 mod r1) t1 (t0 - (r0 div r1) * t1))"
  by pat_completeness auto
termination
  by (relation "measure (\<lambda>(r0, r1, t0, t1). nat r1)") auto

declare inv_loop.simps [simp del]

definition red_invm :: "int \<Rightarrow> int \<Rightarrow> int" where
  "red_invm p a = inv_loop p (a mod p) 0 1 mod p"





text \<open>\<open>Point.prototype.neg\<close>, \<open>dbl\<close>, \<open>add\<close> and \<open>mul\<close> of the short Weierstrass curve.\<close>

definition pt_neg :: "curve \<Rightarrow> point \<Rightarrow> point" where
  "pt_neg ec P =
     (case P of Infinity \<Rightarrow> Infinity | Point x y \<Rightarrow> Point x ((- y) mod curve_p ec))"

definition pt_dbl :: "curve \<Rightarrow> point \<Rightarrow> point" where
  "pt_dbl ec P =
     (case P of
        Infinity \<Rightarrow> Infinity
      | Point x y \<Rightarrow>
          let p = curve_p ec;
              ys1 = (y + y) mod p
          in if ys1 = 0 then Infinity
             else
               let x2 = (x * x) mod p;
                   dyinv = red_invm p ys1;
                   c = ((x2 + x2 + x2 + curve_a ec) * dyinv) mod p;
                   nx = (c * c - (x + x)) mod p;
                   ny = (c * (x - nx) - y) mod p
               in Point nx ny)"

definition pt_add :: "curve \<Rightarrow> point \<Rightarrow> point \<Rightarrow> point" where
  "pt_add ec P Q =
     (case P of
        Infinity \<Rightarrow> Q
      | Point x1 y1 \<Rightarrow>
          (case Q of
             Infinity \<Rightarrow> P
           | Point x2 y2 \<Rightarrow>
               if P = Q then pt_dbl ec P
               else if pt_neg ec P = Q then Infinity
               else if x1 = x2 then Infinity
               else
                 let p = curve_p ec;
                     c0 = (y1 - y2) mod p;
                     c = (if c0 \<noteq> 0 then (c0 * red_invm p ((x1 - x2) mod p)) mod p else c0);
                     nx = (c * c - x1 - x2) mod p;
                     ny = (c * (x1 - nx) - y1) mod p
                 in Point nx ny))"

text \<open>A point is on the curve when it is the point at infinity or satisfies the curve
  equation modulo \<open>p\<close>.\<close>

definition on_curve :: "curve \<Rightarrow> point \<Rightarrow> bool" where
  "on_curve ec P =
     (case P of
        Infinity \<Rightarrow> True
      | Point x y \<Rightarrow>
          (y * y) mod curve_p ec = (x * x * x + curve_a ec * x + curve_b ec) mod curve_p ec)"

text \<open>\<open>P.mul(k)\<close> for a scalar \<open>k \<ge> 0\<close>.  On a point of the curve it is the \<open>k\<close>-fold sum
  of \<open>P\<close>, here by doubling and adding along the binary digits of \<open>k\<close>.  On a point that
  does not satisfy the curve equation (a 65-byte public key is decoded without that check)
  the library's result depends on its window and endomorphism tables; it is not modelled,
  and \<open>pt_mul\<close> is left unspecified there.\<close>

function dbl_add :: "curve \<Rightarrow> point \<Rightarrow> int \<Rightarrow> point" where
  "dbl_add ec P k =
     (if k \<le> 0 then Infinity
      else let H = pt_dbl ec (dbl_add ec P (k div 2))
           in if odd k then pt_add ec H P else H)"
  by pat_completeness auto
termination
  by (relation "measure (\<lambda>(ec, P, k). nat k)") auto

declare dbl_add.simps [simp del]

definition pt_mul :: "curve \<Rightarrow> point \<Rightarrow> int \<Rightarrow> point" where
  "pt_mul ec P k = (if on_curve ec P then dbl_add ec P k else undefined)"

text \<open>\<open>getX\<close> and \<open>getY\<close> read a coordinate; the point at infinity has \<open>null\<close> coordinates,
  and reading one throws a \<open>TypeError\<close>.\<close>

definition getX :: "point \<Rightarrow> js_error + int" where
  "getX P = (case P of Infinity \<Rightarrow> Inl TypeError | Point x y \<Rightarrow> Inr x)"










section \<open>\<open>DlcOracle\<close>: keys and signatures\<close>


text \<open>The bytes both signature functions give to SHA-256 after the message, from the
  \<open>x\<close>-coordinate of the nonce point.\<close>

definition RxString :: "int \<Rightarrow> string" where
  "RxString Rx = padHexString (bn_toString16 Rx)"

definition challenge :: "buffer \<Rightarrow> int \<Rightarrow> int" where
  "challenge message Rx =
     bn_of_hex (buffer_to_hex (sha256 (message @ buffer_from_hex (RxString Rx))))"


definition computeSignature ::
    "curve \<Rightarrow> buffer \<Rightarrow> buffer \<Rightarrow> buffer \<Rightarrow> js_error + buffer" where
  "computeSignature ec privateKey oneTimeSigningKey message =
     (let bigPriv = bn_of_hex (buffer_to_hex privateKey);
          bigK = bn_of_hex (buffer_to_hex oneTimeSigningKey);
          R = pt_mul ec (curve_g ec) bigK
      in bind_js (getX R) (\<lambda>Rx.
           let bigE = challenge message Rx;
               bigS = bigK - bigE * bigPriv
           in bind_js (euclideanMod bigS (curve_n ec)) (\<lambda>bigS.
                let numberString = bn_toString16 bigS
                in if length numberString < 64 then
                     bind_js (array_join_zeros (64 - int (length numberString) + 1)) (\<lambda>zeros.
                       Inr (buffer_from_hex (zeros @ numberString)))
                   else Inr (buffer_from_hex numberString))))"

text \<open>The shortest big-endian encoding with a whole number of bytes: the bytes of the
  hexadecimal digits of \<open>x\<close>, after \<open>padHexString\<close> has made their number even.\<close>

definition rx_bytes :: "int \<Rightarrow> buffer" where
  "rx_bytes x = be_bytes ((length (hex_digits x) + 1) div 2) x"

text \<open>The coordinates of a point are residues.\<close>

definition in_field :: "curve \<Rightarrow> point \<Rightarrow> bool" where
  "in_field ec P =
     (case P of Infinity \<Rightarrow> True
      | Point x y \<Rightarrow> 0 \<le> x \<and> x < curve_p ec \<and> 0 \<le> y \<and> y < curve_p ec)"



section \<open>Canonical modulo\<close>

lemma euclideanMod_nonneg:
  "0 \<le> a \<Longrightarrow> 0 < m \<Longrightarrow> euclideanMod a m = Inr (a mod m)"
  by (simp add: euclideanMod_def bn_mod_def bind_js_def sgn_if)

lemma euclideanMod_neg:
  "a < 0 \<Longrightarrow> 0 < m \<Longrightarrow> euclideanMod a m = Inr (if m dvd a then m else a mod m)"
proof -
  assume a: "a < 0" and m: "0 < m"
  have "(- a) mod m = (if m dvd a then 0 else m - a mod m)"
    using m by (simp add: zmod_zminus1_eq_if dvd_eq_mod_eq_0)
  then show ?thesis
    using a m by (simp add: euclideanMod_def bn_mod_def bind_js_def sgn_if)
qed

text \<open>C3 (as the code has it): a negative multiple of the modulus is mapped to the modulus
  itself, not to 0.\<close>

theorem euclideanMod_neg_multiple: "euclideanMod (-5) 5 = Inr 5"
  by (simp add: euclideanMod_def bn_mod_def bind_js_def)

section \<open>Hexadecimal text and big-endian bytes\<close>

lemma int_div_bound: "0 \<le> v \<Longrightarrow> 0 < b \<Longrightarrow> v < b * c \<Longrightarrow> v div b < c"
  for v b c :: int
proof -
  assume b: "0 < b" and v: "v < b * c"
  have "b * (v div b) + v mod b = v" by simp
  moreover have "0 \<le> v mod b" using b by simp
  ultimately have "b * (v div b) < b * c" using v by linarith
  then show ?thesis using b by (simp add: mult_less_cancel_left_pos)
qed

lemma int_div_lower: "0 < b \<Longrightarrow> b * c \<le> v \<Longrightarrow> c \<le> v div b"
  for v b c :: int
  by (metis nonzero_mult_div_cancel_left linorder_not_less div_by_0 zdiv_mono1)

lemma hex_value_digit: "0 \<le> d \<Longrightarrow> d < 16 \<Longrightarrow> hex_value (hex_digit d) = Some d"
  by (auto simp: hex_value_def hex_digit_def Let_def)

lemma length_hex_fixed: "length (hex_fixed k v) = k"
  by (induction k arbitrary: v) auto

lemma hex_digit_0: "hex_digit 0 = CHR ''0''"
  by code_simp

lemma hex_fixed_zero: "hex_fixed k 0 = replicate k (CHR ''0'')"
  by (induction k) (auto simp: hex_digit_0 replicate_append_same)

lemma hex_digits_small: "v < 16 \<Longrightarrow> hex_digits v = [hex_digit v]"
  by (simp add: hex_digits.simps)

lemma hex_digits_big:
  "\<not> v < 16 \<Longrightarrow> hex_digits v = hex_digits (v div 16) @ [hex_digit (v mod 16)]"
  by (subst hex_digits.simps) simp

lemma hex_digits_fixed:
  "0 \<le> v \<Longrightarrow> v < 16 ^ Suc k \<Longrightarrow>
     length (hex_digits v) \<le> Suc k \<and>
     replicate (Suc k - length (hex_digits v)) (CHR ''0'') @ hex_digits v = hex_fixed (Suc k) v"
proof (induction k arbitrary: v)
  case 0
  then show ?case by (simp add: hex_digits_small)
next
  case (Suc k)
  show ?case
  proof (cases "v < 16")
    case True
    then show ?thesis
      using Suc.prems by (simp add: hex_digits_small hex_fixed_zero)
  next
    case False
    have "v div 16 < 16 ^ Suc k"
      using Suc.prems by (intro int_div_bound) simp_all
    moreover have "0 \<le> v div 16"
      using Suc.prems by simp
    ultimately have "length (hex_digits (v div 16)) \<le> Suc k \<and>
        replicate (Suc k - length (hex_digits (v div 16))) (CHR ''0'') @ hex_digits (v div 16)
          = hex_fixed (Suc k) (v div 16)"
      by (intro Suc.IH)
    then show ?thesis
      using False by (simp add: hex_digits_big Suc_diff_le)
  qed
qed

lemma hex_digits_length_ge:
  "16 ^ k \<le> v \<Longrightarrow> k < length (hex_digits v)"
proof (induction k arbitrary: v)
  case 0
  then show ?case by (cases "v < 16") (simp_all add: hex_digits_small hex_digits_big)
next
  case (Suc k)
  have "(1::int) \<le> 16 ^ k" by simp
  then have "(16::int) \<le> 16 ^ Suc k" by simp
  with Suc.prems have big: "\<not> v < 16" by linarith
  have "16 ^ k \<le> v div 16"
    using Suc.prems by (intro int_div_lower) simp_all
  from Suc.IH [OF this] show ?case
    using big by (simp add: hex_digits_big)
qed

lemma buffer_from_hex_append:
  "even (length xs) \<Longrightarrow> \<forall>c \<in> set xs. hex_value c \<noteq> None \<Longrightarrow>
     buffer_from_hex (xs @ ys) = buffer_from_hex xs @ buffer_from_hex ys"
proof (induction xs rule: buffer_from_hex.induct)
  case (1 a b cs)
  then show ?case by (auto split: option.splits)
qed auto

lemma hex_fixed_valid: "c \<in> set (hex_fixed k v) \<Longrightarrow> hex_value c \<noteq> None"
  by (induction k arbitrary: v) (auto simp: hex_value_digit)

lemma byte_of_nibbles: "16 * (v div 16 mod 16) + v mod 16 = v mod 256"
  for v :: int
  using zmod_zmult2_eq [of 16 v 16] by simp

lemma int_div16_twice: "v div 16 div 16 = v div 256"
  for v :: int
  using zdiv_zmult2_eq [of 16 v 16] by simp

lemma buffer_from_hex_fixed: "buffer_from_hex (hex_fixed (2 * k) v) = be_bytes k v"
proof (induction k arbitrary: v)
  case 0
  then show ?case by simp
next
  case (Suc k)
  have split: "hex_fixed (2 * Suc k) v =
      hex_fixed (2 * k) (v div 256) @ [hex_digit (v div 16 mod 16), hex_digit (v mod 16)]"
    by (simp add: int_div16_twice)
  have "buffer_from_hex (hex_fixed (2 * Suc k) v) =
      buffer_from_hex (hex_fixed (2 * k) (v div 256)) @
      buffer_from_hex [hex_digit (v div 16 mod 16), hex_digit (v mod 16)]"
    unfolding split
    by (rule buffer_from_hex_append) (auto simp: length_hex_fixed dest: hex_fixed_valid)
  then show ?case
    by (simp add: Suc.IH hex_value_digit byte_of_nibbles)
qed


lemma be_int_snoc: "be_int (bs @ [b]) = 256 * be_int bs + uint b"
  by (simp add: be_int_def)




lemma be_bytes_top: "be_bytes (Suc k) (b * 256 ^ k) = of_int (b mod 256) # replicate k 0"
proof (induction k)
  case 0
  then show ?case by simp
next
  case (Suc k)
  have "be_bytes (Suc (Suc k)) (b * 256 ^ Suc k) = be_bytes (Suc k) (b * 256 ^ k) @ [0]"
    by simp
  then show ?case
    by (simp only: Suc.IH) (simp add: replicate_append_same)
qed

section \<open>Numeric messages\<close>

lemma toString16_nonneg: "0 \<le> v \<Longrightarrow> toString16 v = hex_digits v"
  by (simp add: toString16_def)


lemma generateNumericMessage_65:
  assumes lo: "16 ^ 64 \<le> v" and hi: "v < 16 ^ 65"
  shows "generateNumericMessage v = Inr (be_bytes 32 (v div 16))"
proof -
  have v0: "0 \<le> v"
    using lo by (rule order_trans [rotated]) simp
  have "v < 16 ^ Suc 64" using hi by simp
  from hex_digits_fixed [OF v0 this]
  have len: "length (hex_digits v) \<le> 65"
    and pad: "replicate (65 - length (hex_digits v)) (CHR ''0'') @ hex_digits v = hex_fixed 65 v"
    by simp_all
  have "64 < length (hex_digits v)"
    using lo by (rule hex_digits_length_ge)
  with len have len65: "length (hex_digits v) = 65" by simp
  with pad have str: "hex_digits v = hex_fixed (Suc 64) v" by simp
  have "buffer_from_hex (hex_fixed (2 * 32) (v div 16) @ [hex_digit (v mod 16)]) =
      buffer_from_hex (hex_fixed (2 * 32) (v div 16)) @ buffer_from_hex [hex_digit (v mod 16)]"
    by (rule buffer_from_hex_append) (auto simp: length_hex_fixed dest: hex_fixed_valid)
  then have "buffer_from_hex (hex_digits v) = be_bytes 32 (v div 16)"
    unfolding str hex_fixed.simps buffer_from_hex_fixed by simp
  then show ?thesis
    using len65 v0
    by (simp add: generateNumericMessage_def toString16_nonneg array_join_zeros_def bind_js_def
        Let_def)
qed

lemma generateNumericMessage_long:
  assumes "16 ^ 65 \<le> v"
  shows "generateNumericMessage v = Inl RangeError"
proof -
  have v0: "0 \<le> v"
    using assms by (rule order_trans [rotated]) simp
  have "65 < length (hex_digits v)"
    using assms by (rule hex_digits_length_ge)
  then show ?thesis
    using v0
    by (simp add: generateNumericMessage_def toString16_nonneg array_join_zeros_def bind_js_def
        Let_def)
qed



text \<open>C7 (as stated, refuted): \<open>2^256\<close> has 65 hexadecimal digits; the padding is then
  empty, \<open>Buffer.from\<close> drops the last digit, and a buffer of 32 bytes is returned.\<close>

theorem generateNumericMessage_2_256_returns:
  "generateNumericMessage (2 ^ 256) = Inr (16 # replicate 31 0)"
proof -
  have "generateNumericMessage (2 ^ 256) = Inr (be_bytes 32 (2 ^ 256 div 16))"
    by (rule generateNumericMessage_65) simp_all
  also have "be_bytes 32 (2 ^ 256 div 16) = 16 # replicate 31 0"
    using be_bytes_top [of 31 16] by simp
  finally show ?thesis .
qed

text \<open>C7 (amended): \<open>generateNumericMessage\<close> has no \<open>ValueOutOfRange\<close> check.  Its only
  failure is the \<open>RangeError\<close> of \<open>new Array\<close> with a negative length, raised exactly for
  the values of at least \<open>2^260\<close> (66 or more hexadecimal digits); a value from \<open>2^256\<close> up
  to \<open>2^260 - 1\<close> is not rejected.\<close>

theorem generateNumericMessage_no_range_check:
  "2 ^ 256 \<le> v \<Longrightarrow>
     (if v < 2 ^ 260 then \<exists>bs. generateNumericMessage v = Inr bs
      else generateNumericMessage v = Inl RangeError)"
proof -
  assume "2 ^ 256 \<le> v"
  moreover have "(2::int) ^ 256 = 16 ^ 64" and p260: "(2::int) ^ 260 = 16 ^ 65" by simp_all
  ultimately have lo: "16 ^ 64 \<le> v" by simp
  show ?thesis
  proof (cases "v < 16 ^ 65")
    case True
    with lo show ?thesis
      unfolding p260 by (simp only: generateNumericMessage_65 if_True) blast
  next
    case False
    then have "16 ^ 65 \<le> v" by simp
    with False show ?thesis
      unfolding p260 by (simp only: generateNumericMessage_long if_False)
  qed
qed

theorem generateNumericMessage_no_range_check_witness:
  "(2::int) ^ 256 \<le> 2 ^ 260 \<and> generateNumericMessage (2 ^ 260) = Inl RangeError"
  using generateNumericMessage_no_range_check [of "2 ^ 260"] by simp

section \<open>The signature, step by step\<close>

lemma hex_digit_not_minus: "0 \<le> d \<Longrightarrow> d < 16 \<Longrightarrow> hex_digit d \<noteq> CHR ''-''"
proof
  assume d: "0 \<le> d" "d < 16" and "hex_digit d = CHR ''-''"
  then have "hex_value (CHR ''-'') = Some d"
    using hex_value_digit [of d] by simp
  then show False by (simp add: hex_value_def)
qed

lemma hex_to_int_append2:
  "hex_to_int (s @ [c1, c2]) =
     256 * hex_to_int s + 16 * (case hex_value c1 of Some d \<Rightarrow> d | None \<Rightarrow> 0)
       + (case hex_value c2 of Some d \<Rightarrow> d | None \<Rightarrow> 0)"
  by (simp add: hex_to_int_def)

lemma buffer_to_hex_snoc:
  "buffer_to_hex (bs @ [b]) = buffer_to_hex bs @ [hex_digit (uint b div 16), hex_digit (uint b mod 16)]"
  by (simp add: buffer_to_hex_def)

lemma uint_byte_nibbles: "0 \<le> uint b div 16" "uint b div 16 < 16" "0 \<le> uint b mod 16" "uint b mod 16 < 16"
  for b :: byte
proof -
  have "uint b < 256" using uint_bounded [of b] by simp
  then show "uint b div 16 < 16" by (intro int_div_bound) simp_all
  show "0 \<le> uint b div 16" by (simp add: pos_imp_zdiv_nonneg_iff)
qed simp_all

lemma hex_to_int_buffer_to_hex: "hex_to_int (buffer_to_hex bs) = be_int bs"
proof (induction bs rule: rev_induct)
  case Nil
  then show ?case by (simp add: buffer_to_hex_def hex_to_int_def be_int_def)
next
  case (snoc b bs)
  have "16 * (uint b div 16) + uint b mod 16 = uint b" by simp
  then show ?case
    using snoc
    by (simp add: buffer_to_hex_snoc hex_to_int_append2 be_int_snoc hex_value_digit
        uint_byte_nibbles)
qed

lemma bn_of_hex_buffer_to_hex: "bn_of_hex (buffer_to_hex bs) = be_int bs"
proof (cases bs)
  case Nil
  then show ?thesis by (simp add: bn_of_hex_def buffer_to_hex_def be_int_def)
next
  case (Cons b rest)
  then obtain c r where cr: "buffer_to_hex bs = c # r" and c: "c = hex_digit (uint b div 16)"
    by (simp add: buffer_to_hex_def)
  have "c \<noteq> CHR ''-''"
    unfolding c by (rule hex_digit_not_minus) (simp_all add: uint_byte_nibbles)
  then have "bn_of_hex (buffer_to_hex bs) = hex_to_int (buffer_to_hex bs)"
    by (simp add: bn_of_hex_def cr)
  then show ?thesis by (simp add: hex_to_int_buffer_to_hex)
qed

lemma hex_digits_upper: "0 \<le> v \<Longrightarrow> v < 16 ^ length (hex_digits v)"
proof (induction v rule: hex_digits.induct)
  case (1 v)
  show ?case
  proof (cases "v < 16")
    case True
    then show ?thesis by (simp add: hex_digits_small)
  next
    case False
    then have "v div 16 < 16 ^ length (hex_digits (v div 16))"
      using 1 by simp
    then have "v div 16 + 1 \<le> 16 ^ length (hex_digits (v div 16))" by simp
    moreover have "v < 16 * (v div 16 + 1)"
      by simp
    ultimately have "v < 16 * 16 ^ length (hex_digits (v div 16))" by linarith
    then show ?thesis
      using False by (simp add: hex_digits_big)
  qed
qed

lemma hex_digits_nonempty: "hex_digits v \<noteq> []"
  by (subst hex_digits.simps) simp

lemma hex_digits_eq_fixed: "0 \<le> v \<Longrightarrow> hex_digits v = hex_fixed (length (hex_digits v)) v"
proof -
  assume v: "0 \<le> v"
  obtain k where k: "length (hex_digits v) = Suc k"
    using hex_digits_nonempty [of v] by (cases "hex_digits v") auto
  have "v < 16 ^ Suc k"
    using hex_digits_upper [OF v] k by simp
  from hex_digits_fixed [OF v this] show ?thesis
    using k by simp
qed

lemma zero_hex_digits_fixed:
  "0 \<le> v \<Longrightarrow> CHR ''0'' # hex_digits v = hex_fixed (Suc (length (hex_digits v))) v"
proof -
  assume v: "0 \<le> v"
  have "v < 16 ^ length (hex_digits v)"
    using v by (rule hex_digits_upper)
  then have "v < 16 ^ Suc (length (hex_digits v))"
    by (rule less_le_trans) simp
  from hex_digits_fixed [OF v this] show ?thesis by simp
qed

lemma buffer_from_hex_RxString: "0 \<le> x \<Longrightarrow> buffer_from_hex (RxString x) = rx_bytes x"
proof -
  assume x: "0 \<le> x"
  let ?L = "length (hex_digits x)"
  show ?thesis
  proof (cases "even ?L")
    case True
    then obtain h where h: "?L = 2 * h" by (auto elim: evenE)
    have "RxString x = hex_fixed (2 * h) x"
      using True x hex_digits_eq_fixed [OF x] h
      by (simp add: RxString_def bn_toString16_def toString16_nonneg padHexString_def)
    then show ?thesis
      using h by (simp add: buffer_from_hex_fixed rx_bytes_def)
  next
    case False
    then obtain h where h: "?L = 2 * h + 1" by (auto elim: oddE)
    have "RxString x = hex_fixed (2 * Suc h) x"
      using False x zero_hex_digits_fixed [OF x] h
      by (simp add: RxString_def bn_toString16_def toString16_nonneg padHexString_def)
    then show ?thesis
      using h by (simp only: buffer_from_hex_fixed rx_bytes_def) simp
  qed
qed


lemma in_field_Infinity [simp]: "in_field ec Infinity"
  by (simp add: in_field_def)

lemma in_field_Point:
  "in_field ec (Point x y) \<longleftrightarrow> 0 \<le> x \<and> x < curve_p ec \<and> 0 \<le> y \<and> y < curve_p ec"
  by (simp add: in_field_def)

lemma in_field_mod: "0 < curve_p ec \<Longrightarrow> in_field ec (Point (u mod curve_p ec) (v mod curve_p ec))"
  by (simp add: in_field_def)

lemma in_field_neg: "0 < curve_p ec \<Longrightarrow> in_field ec P \<Longrightarrow> in_field ec (pt_neg ec P)"
  by (cases P) (simp_all add: pt_neg_def in_field_def)

lemma in_field_dbl: "0 < curve_p ec \<Longrightarrow> in_field ec (pt_dbl ec P)"
  by (cases P) (simp_all add: pt_dbl_def in_field_def Let_def)

lemma in_field_add:
  "0 < curve_p ec \<Longrightarrow> in_field ec P \<Longrightarrow> in_field ec Q \<Longrightarrow> in_field ec (pt_add ec P Q)"
  by (cases P; cases Q) (simp_all add: pt_add_def in_field_dbl in_field_mod Let_def)

lemma in_field_dbl_add:
  "0 < curve_p ec \<Longrightarrow> in_field ec P \<Longrightarrow> in_field ec (dbl_add ec P k)"
proof (induction ec P k rule: dbl_add.induct)
  case (1 ec P k)
  show ?case
  proof (cases "k \<le> 0")
    case True
    then show ?thesis by (simp add: dbl_add.simps)
  next
    case False
    then show ?thesis
      using 1 by (subst dbl_add.simps) (simp add: Let_def in_field_dbl in_field_add)
  qed
qed

lemma in_field_mul:
  "0 < curve_p ec \<Longrightarrow> on_curve ec P \<Longrightarrow> in_field ec P \<Longrightarrow> in_field ec (pt_mul ec P k)"
  by (simp add: pt_mul_def in_field_dbl_add)

lemma signature_bytes:
  assumes "0 \<le> s" and "s < 2 ^ 256"
  shows "(let numberString = bn_toString16 s
          in if length numberString < 64 then
               bind_js (array_join_zeros (64 - int (length numberString) + 1)) (\<lambda>zeros.
                 Inr (buffer_from_hex (zeros @ numberString)))
             else Inr (buffer_from_hex numberString)) = Inr (be_bytes 32 s)"
proof -
  have "(2::int) ^ 256 = 16 ^ Suc 63" by simp
  with assms have "s < 16 ^ Suc 63" by simp
  from hex_digits_fixed [OF assms(1) this]
  have len: "length (hex_digits s) \<le> 64"
    and pad: "replicate (64 - length (hex_digits s)) (CHR ''0'') @ hex_digits s = hex_fixed 64 s"
    by simp_all
  have fixed: "buffer_from_hex (hex_fixed (2 * 32) s) = be_bytes 32 s"
    by (rule buffer_from_hex_fixed)
  show ?thesis
  proof (cases "length (hex_digits s) < 64")
    case True
    then have "nat (64 - int (length (hex_digits s)) + 1) - 1 = 64 - length (hex_digits s)"
      by linarith
    then show ?thesis
      using True pad fixed assms(1)
      by (simp add: bn_toString16_def toString16_nonneg array_join_zeros_def bind_js_def Let_def)
  next
    case False
    with len have "length (hex_digits s) = 64" by simp
    with pad have "hex_digits s = hex_fixed 64 s" by simp
    then show ?thesis
      using False fixed assms(1)
      by (simp add: bn_toString16_def toString16_nonneg Let_def)
  qed
qed

lemma euclideanMod_pos:
  assumes m: "0 < m"
  shows "\<exists>s. euclideanMod a m = Inr s \<and> 0 \<le> s \<and> s \<le> m \<and> (s - a) mod m = 0"
proof (cases "a < 0")
  case True
  show ?thesis
  proof (cases "m dvd a")
    case dvd: True
    then have "(m - a) mod m = 0"
      by (simp add: mod_eq_0_iff_dvd)
    then show ?thesis
      using True m dvd by (simp add: euclideanMod_neg)
  next
    case False
    have "(a mod m - a) mod m = 0"
      by (simp add: mod_diff_left_eq)
    moreover have "0 \<le> a mod m" "a mod m \<le> m"
      using m by (simp_all add: less_imp_le)
    ultimately show ?thesis
      using True m False by (simp add: euclideanMod_neg)
  qed
next
  case False
  have "(a mod m - a) mod m = 0"
    by (simp add: mod_diff_left_eq)
  moreover have "0 \<le> a mod m" "a mod m \<le> m"
    using m by (simp_all add: less_imp_le)
  ultimately show ?thesis
    using False m by (simp add: euclideanMod_nonneg)
qed

lemma challenge_eq: "0 \<le> x \<Longrightarrow> challenge m x = be_int (sha256 (m @ rx_bytes x))"
  by (simp add: challenge_def bn_of_hex_buffer_to_hex buffer_from_hex_RxString)

lemma computeSignature_eq:
  assumes p: "0 < curve_p ec" and g: "in_field ec (curve_g ec)"
    and n: "0 < curve_n ec" "curve_n ec < 2 ^ 256"
    and gc: "on_curve ec (curve_g ec)"
  shows "computeSignature ec a k m =
    (case pt_mul ec (curve_g ec) (be_int k) of
       Infinity \<Rightarrow> Inl TypeError
     | Point x y \<Rightarrow>
         bind_js (euclideanMod (be_int k - be_int (sha256 (m @ rx_bytes x)) * be_int a) (curve_n ec))
           (\<lambda>s. Inr (be_bytes 32 s)))"
proof (cases "pt_mul ec (curve_g ec) (be_int k)")
  case Infinity
  then show ?thesis
    by (simp add: computeSignature_def bn_of_hex_buffer_to_hex getX_def bind_js_def Let_def)
next
  case (Point x y)
  have "in_field ec (Point x y)"
    using in_field_mul [OF p gc g, of "be_int k"] Point by simp
  then have x: "0 \<le> x" by (simp add: in_field_Point)
  let ?d = "be_int k - be_int (sha256 (m @ rx_bytes x)) * be_int a"
  obtain s where s: "euclideanMod ?d (curve_n ec) = Inr s" "0 \<le> s" "s \<le> curve_n ec"
    using euclideanMod_pos [OF n(1)] by blast
  then have "s < 2 ^ 256" using n(2) by simp
  from signature_bytes [OF s(2) this] show ?thesis
    using Point s(1)
    by (simp add: computeSignature_def bn_of_hex_buffer_to_hex getX_def bind_js_def
        challenge_eq [OF x] Let_def)
qed

section \<open>Public keys\<close>










section \<open>The context \<open>secp256k1\<close>\<close>

lemma secp256k1_params:
  "0 < curve_p secp256k1" "in_field secp256k1 (curve_g secp256k1)"
  "0 < curve_n secp256k1" "curve_n secp256k1 < 2 ^ 256"
  by (simp_all add: secp256k1_def in_field_def)

lemma secp256k1_on_curve_g: "on_curve secp256k1 (curve_g secp256k1)"
  by code_simp


lemma secp256k1_g: "curve_g secp256k1 = Point 55066263022277343669578718895168534326250603453777594175500187360389116729240 32670510020758816978083085130507043184471273380659243275938904335757337482424"
  by (simp add: secp256k1_def)


lemma secp256k1_mul_1: "pt_mul secp256k1 (curve_g secp256k1) 1 = curve_g secp256k1"
proof -
  have "dbl_add secp256k1 (curve_g secp256k1) 1 = curve_g secp256k1"
    by (subst dbl_add.simps, subst dbl_add.simps)
      (simp add: pt_dbl_def pt_add_def secp256k1_g)
  then show ?thesis
    by (simp add: pt_mul_def secp256k1_on_curve_g)
qed

lemma be_int_zeros: "be_int (replicate k 0) = 0"
  by (induction k) (simp_all add: be_int_def)

lemma be_int_one: "be_int (replicate k 0 @ [1]) = 1"
  using be_int_snoc [of "replicate k 0" 1] by (simp add: be_int_zeros)

section \<open>Claims about the public keys\<close>





section \<open>Claims about \<open>computeSignature\<close>\<close>




text \<open>C4 (the code at a degenerate input): for the private key below, the one-time
  signing key 1 and the message of 32 zero bytes, \<open>k - e a\<close> is a multiple of \<open>n\<close>, so the
  signature scalar is 0 modulo \<open>n\<close>; \<open>computeSignature\<close> does not fail and returns 32 bytes,
  the encoding of \<open>n\<close> itself.\<close>

theorem computeSignature_degenerate_returns:
  "computeSignature secp256k1
     [169, 247, 167, 75, 74, 253, 52, 199, 47, 205, 21, 96, 187, 234, 112, 9, 157, 38, 167, 230, 211, 217, 31, 142, 63, 48, 226, 153, 219, 3, 49, 138]
     (replicate 31 0 @ [1]) (replicate 32 0)
   = Inr [255, 255, 255, 255, 255, 255, 255, 255, 255, 255, 255, 255, 255, 255, 255, 254, 186, 174, 220, 230, 175, 72, 160, 59, 191, 210, 94, 140, 208, 54, 65, 65]
   \<and> (1 - challenge (replicate 32 0) 55066263022277343669578718895168534326250603453777594175500187360389116729240
          * 76878437257105467182766768410594556872183704085376473142859504775666025574794) mod curve_n secp256k1 = 0"
proof -
  have a: "be_int [169, 247, 167, 75, 74, 253, 52, 199, 47, 205, 21, 96, 187, 234, 112, 9, 157, 38, 167, 230, 211, 217, 31, 142, 63, 48, 226, 153, 219, 3, 49, 138]
      = 76878437257105467182766768410594556872183704085376473142859504775666025574794"
    by code_simp
  have e: "be_int (sha256 (replicate 32 0 @ rx_bytes 55066263022277343669578718895168534326250603453777594175500187360389116729240))
      = 80010462609639189250558308924078375352403476795038804126507309945762289738518"
    by code_simp
  have s: "euclideanMod (- 6151079329647129372290700311412931895055651921541287032298144790041749993519614008986628976032037293162425149919706814665683319127014764411036018911715291) (curve_n secp256k1) = Inr (curve_n secp256k1)"
    by code_simp
  have z: "(- 6151079329647129372290700311412931895055651921541287032298144790041749993519614008986628976032037293162425149919706814665683319127014764411036018911715291) mod curve_n secp256k1 = 0"
    by code_simp
  have n: "be_bytes 32 (curve_n secp256k1) = [255, 255, 255, 255, 255, 255, 255, 255, 255, 255, 255, 255, 255, 255, 255, 254, 186, 174, 220, 230, 175, 72, 160, 59, 191, 210, 94, 140, 208, 54, 65, 65]"
    by code_simp
  have c: "challenge (replicate 32 0) 55066263022277343669578718895168534326250603453777594175500187360389116729240
      = 80010462609639189250558308924078375352403476795038804126507309945762289738518"
    by (simp add: challenge_eq e)
  have "computeSignature secp256k1
     [169, 247, 167, 75, 74, 253, 52, 199, 47, 205, 21, 96, 187, 234, 112, 9, 157, 38, 167, 230, 211, 217, 31, 142, 63, 48, 226, 153, 219, 3, 49, 138]
     (replicate 31 0 @ [1]) (replicate 32 0) = Inr [255, 255, 255, 255, 255, 255, 255, 255, 255, 255, 255, 255, 255, 255, 255, 254, 186, 174, 220, 230, 175, 72, 160, 59, 191, 210, 94, 140, 208, 54, 65, 65]"
    unfolding computeSignature_eq [OF secp256k1_params secp256k1_on_curve_g]
      be_int_one secp256k1_mul_1
    by (simp add: secp256k1_g a e s n bind_js_def)
  moreover have "(1 - challenge (replicate 32 0) 55066263022277343669578718895168534326250603453777594175500187360389116729240
          * 76878437257105467182766768410594556872183704085376473142859504775666025574794) mod curve_n secp256k1 = 0"
    using z by (simp add: c)
  ultimately show ?thesis ..
qed

end
